theory Spec2Isabelle
  imports Main "HOL-Library.Word"
begin

section \<open>Nodes and the node store\<close>

text \<open>
  \<^verbatim>\<open>NodePtr\<close> is a \<^verbatim>\<open>std::shared_ptr<Node>\<close>: either null or the address of a node object.
  Node objects live in a store, a list indexed by address. The interface of a node
  (\<^verbatim>\<open>properties()\<close>, \<^verbatim>\<open>children()\<close>, \<^verbatim>\<open>meta()\<close>, \<^verbatim>\<open>pruneWalk()\<close>) gives the fields;
  \<open>kind\<close> is the dynamic class of the object, which is what a dynamic cast inspects.
  The types of kinds, meta data and properties are parameters.
\<close>

type_synonym addr = nat

type_synonym NodePtr = "addr option"

record ('k, 'm, 'p) Node =
  kind :: 'k
  children :: "NodePtr list"
  meta :: 'm
  properties :: 'p
  pruneWalk :: bool

type_synonym ('k, 'm, 'p) store = "('k, 'm, 'p) Node list"

text \<open>
  How a call can end without a value: a failed \<^verbatim>\<open>assert\<close> (assertions are taken as
  enabled), or a read through an iterator that points to no element of its vector.
\<close>

datatype failure = AssertionFailure | UndefinedBehaviour

text \<open>
  \<^verbatim>\<open>std::dynamic_pointer_cast<T>(p)\<close>: null when \<open>p\<close> is null or the object is not a
  \<open>T\<close>, else the same pointer. The template parameter \<open>T\<close> is the set of kinds that
  are a \<open>T\<close>. An address without an object has no dynamic class.
\<close>

definition dynamic_pointer_cast ::
  "('k \<Rightarrow> bool) \<Rightarrow> ('k, 'm, 'p) store \<Rightarrow> NodePtr \<Rightarrow> NodePtr" where
  "dynamic_pointer_cast T h p =
     (case p of
        None \<Rightarrow> None
      | Some a \<Rightarrow> if a < length h \<and> T (kind (h ! a)) then Some a else None)"

text \<open>An element of a span satisfies capability \<open>T\<close>: it points to an object whose kind is a \<open>T\<close>.\<close>

definition satisfies :: "('k \<Rightarrow> bool) \<Rightarrow> ('k, 'm, 'p) store \<Rightarrow> NodePtr \<Rightarrow> bool" where
  "satisfies T h p = (\<exists>a. p = Some a \<and> a < length h \<and> T (kind (h ! a)))"

section \<open>Vector iterators\<close>

text \<open>
  \<^verbatim>\<open>std::vector<NodePtr>::const_iterator\<close>: a position in a vector. Arithmetic moves the
  position without any check; \<^verbatim>\<open>difference_type\<close> values are integers. Reading through
  an iterator that is not at an element is undefined behaviour.
\<close>

record BaseIterator =
  vec :: "NodePtr list"
  pos :: int

definition vector_begin :: "NodePtr list \<Rightarrow> BaseIterator" where
  "vector_begin v = \<lparr>vec = v, pos = 0\<rparr>"

definition vector_end :: "NodePtr list \<Rightarrow> BaseIterator" where
  "vector_end v = \<lparr>vec = v, pos = int (length v)\<rparr>"

definition base_plus :: "BaseIterator \<Rightarrow> int \<Rightarrow> BaseIterator" where
  "base_plus i n = i\<lparr>pos := pos i + n\<rparr>"

definition base_deref :: "BaseIterator \<Rightarrow> failure + NodePtr" where
  "base_deref i =
     (if 0 \<le> pos i \<and> pos i < int (length (vec i)) then Inr (vec i ! nat (pos i))
      else Inl UndefinedBehaviour)"

section \<open>RangeIterator\<close>

datatype RangeIterator = RangeIterator (iter: BaseIterator)

text \<open>\<^verbatim>\<open>node()\<close>: the untyped element.\<close>

definition node :: "RangeIterator \<Rightarrow> failure + NodePtr" where
  "node it = base_deref (iter it)"

text \<open>
  \<^verbatim>\<open>value()\<close>: \<^verbatim>\<open>auto t = std::dynamic_pointer_cast<T>(*_iter); assert(t); return t;\<close>
\<close>

definition iterator_value ::
  "('k \<Rightarrow> bool) \<Rightarrow> ('k, 'm, 'p) store \<Rightarrow> RangeIterator \<Rightarrow> failure + NodePtr" where
  "iterator_value T h it =
     (case base_deref (iter it) of
        Inl e \<Rightarrow> Inl e
      | Inr p \<Rightarrow>
          (let t = dynamic_pointer_cast T h p
           in if t \<noteq> None then Inr t else Inl AssertionFailure))"

text \<open>
  \<^verbatim>\<open>operator*\<close> returns \<^verbatim>\<open>value()\<close>. The body of \<^verbatim>\<open>operator->\<close> is \<^verbatim>\<open>return &value();\<close>,
  the address of a temporary: it is ill-formed as soon as the member is instantiated,
  so \<^verbatim>\<open>operator->\<close> has no behaviour and no definition here.
\<close>

definition deref ::
  "('k \<Rightarrow> bool) \<Rightarrow> ('k, 'm, 'p) store \<Rightarrow> RangeIterator \<Rightarrow> failure + NodePtr" where
  "deref T h it = iterator_value T h it"

text \<open>\<^verbatim>\<open>operator==\<close>, \<^verbatim>\<open>operator!=\<close>: the wrapped iterators are compared.\<close>

definition iterator_eq :: "RangeIterator \<Rightarrow> RangeIterator \<Rightarrow> bool" where
  "iterator_eq a b = (iter a = iter b)"

definition iterator_neq :: "RangeIterator \<Rightarrow> RangeIterator \<Rightarrow> bool" where
  "iterator_neq a b = (\<not> iterator_eq a b)"

text \<open>\<^verbatim>\<open>operator++()\<close>: the iterator after the step.\<close>

definition pre_incr :: "RangeIterator \<Rightarrow> RangeIterator" where
  "pre_incr it = RangeIterator (base_plus (iter it) 1)"

text \<open>\<^verbatim>\<open>operator++(int)\<close>: the value returned (the old position) and the iterator after the step.\<close>

definition post_incr :: "RangeIterator \<Rightarrow> RangeIterator \<times> RangeIterator" where
  "post_incr it = (RangeIterator (iter it), RangeIterator (base_plus (iter it) 1))"

text \<open>\<^verbatim>\<open>operator+=\<close>, \<^verbatim>\<open>operator-=\<close>, \<^verbatim>\<open>operator+\<close>, \<^verbatim>\<open>operator-\<close> with an offset.\<close>

definition iterator_plus :: "RangeIterator \<Rightarrow> int \<Rightarrow> RangeIterator" where
  "iterator_plus it n = RangeIterator (base_plus (iter it) n)"

definition iterator_minus :: "RangeIterator \<Rightarrow> int \<Rightarrow> RangeIterator" where
  "iterator_minus it n = RangeIterator (base_plus (iter it) (- n))"

text \<open>\<^verbatim>\<open>operator-(const RangeIterator&)\<close>: the signed distance.\<close>

definition iterator_diff :: "RangeIterator \<Rightarrow> RangeIterator \<Rightarrow> int" where
  "iterator_diff a b = pos (iter a) - pos (iter b)"

section \<open>Range\<close>

record Range =
  m_begin :: RangeIterator
  m_end :: RangeIterator

text \<open>\<^verbatim>\<open>Range(begin, end)\<close> and \<^verbatim>\<open>Range(nodes)\<close>. Neither looks at an element.\<close>

definition Range_span :: "BaseIterator \<Rightarrow> BaseIterator \<Rightarrow> Range" where
  "Range_span b e = \<lparr>m_begin = RangeIterator b, m_end = RangeIterator e\<rparr>"

definition Range_of :: "NodePtr list \<Rightarrow> Range" where
  "Range_of nodes = Range_span (vector_begin nodes) (vector_end nodes)"

definition Range_begin :: "Range \<Rightarrow> RangeIterator" where
  "Range_begin r = m_begin r"

definition Range_end :: "Range \<Rightarrow> RangeIterator" where
  "Range_end r = m_end r"

text \<open>\<^verbatim>\<open>size()\<close>: \<^verbatim>\<open>static_cast<size_t>(_end - _begin)\<close>, with a 64-bit \<^verbatim>\<open>size_t\<close>.\<close>

definition Range_size :: "Range \<Rightarrow> 64 word" where
  "Range_size r = word_of_int (iterator_diff (m_end r) (m_begin r))"

text \<open>
  Two members have no definition here, because they are ill-formed as soon as they are
  instantiated. \<^verbatim>\<open>front()\<close> is declared to return \<^verbatim>\<open>const T&\<close> and its body is
  \<^verbatim>\<open>return *_begin;\<close>, a \<^verbatim>\<open>std::shared_ptr<T>\<close>. \<^verbatim>\<open>copy()\<close> calls \<^verbatim>\<open>i->clone()\<close> on a
  \<^verbatim>\<open>RangeIterator<T>\<close>, which needs \<^verbatim>\<open>operator->\<close>.
\<close>

definition Range_empty :: "Range \<Rightarrow> bool" where
  "Range_empty r = iterator_eq (m_begin r) (m_end r)"

text \<open>
  \<^verbatim>\<open>operator[](size_t i)\<close>: the index is cast to the signed \<^verbatim>\<open>difference_type\<close> for
  the assertion, and converted to it again as the argument of \<^verbatim>\<open>operator+\<close>.
\<close>

definition Range_index ::
  "('k \<Rightarrow> bool) \<Rightarrow> ('k, 'm, 'p) store \<Rightarrow> Range \<Rightarrow> 64 word \<Rightarrow> failure + NodePtr" where
  "Range_index T h r i =
     (if sint i < iterator_diff (m_end r) (m_begin r)
      then deref T h (iterator_plus (m_begin r) (sint i))
      else Inl AssertionFailure)"

text \<open>
  \<^verbatim>\<open>operator==(const Range& other)\<close>. Range objects have an address; \<open>objs\<close> holds the
  Range objects, indexed by address, and \<open>this\<close> and \<open>other\<close> are addresses (a reference
  to no object is undefined behaviour). The loop is
  \<^verbatim>\<open>while ( x != _end ) { if ( ! (*x++ == *y++) ) return false; } return true;\<close>
  where the two handles compared are \<^verbatim>\<open>std::shared_ptr<T>\<close>, equal when they point to
  the same object.
\<close>

function eq_loop ::
  "('k \<Rightarrow> bool) \<Rightarrow> ('k, 'm, 'p) store \<Rightarrow> RangeIterator \<Rightarrow> RangeIterator \<Rightarrow> RangeIterator
     \<Rightarrow> failure + bool" where
  "eq_loop T h x y e =
     (if iterator_neq x e then
        (case deref T h (fst (post_incr x)) of
           Inl err \<Rightarrow> Inl err
         | Inr px \<Rightarrow>
             (case deref T h (fst (post_incr y)) of
                Inl err \<Rightarrow> Inl err
              | Inr py \<Rightarrow>
                  if \<not> (px = py) then Inr False
                  else eq_loop T h (snd (post_incr x)) (snd (post_incr y)) e))
      else Inr True)"
  by pat_completeness auto
termination
  by (relation "measure (\<lambda>(T, h, x, y, e). nat (int (length (vec (iter x))) - pos (iter x)))")
    (auto simp: deref_def iterator_value_def base_deref_def post_incr_def base_plus_def
      split: if_splits sum.splits)

definition Range_eq ::
  "('k \<Rightarrow> bool) \<Rightarrow> ('k, 'm, 'p) store \<Rightarrow> Range list \<Rightarrow> addr \<Rightarrow> addr \<Rightarrow> failure + bool" where
  "Range_eq T h objs this other =
     (if this = other then Inr True
      else if this < length objs \<and> other < length objs then
        (if Range_size (objs ! this) \<noteq> Range_size (objs ! other) then Inr False
         else eq_loop T h (m_begin (objs ! this)) (m_begin (objs ! other)) (m_end (objs ! this)))
      else Inl UndefinedBehaviour)"

text \<open>
  Iterating a range with the range-based \<^verbatim>\<open>for\<close> statement, which is
  \<^verbatim>\<open>for ( auto i = r.begin(); i != r.end(); ++i ) { ... *i ... }\<close>, collecting the handles.
\<close>

function range_for ::
  "('k \<Rightarrow> bool) \<Rightarrow> ('k, 'm, 'p) store \<Rightarrow> RangeIterator \<Rightarrow> RangeIterator \<Rightarrow> NodePtr list
     \<Rightarrow> failure + NodePtr list" where
  "range_for T h i e acc =
     (if iterator_neq i e then
        (case deref T h i of
           Inl err \<Rightarrow> Inl err
         | Inr p \<Rightarrow> range_for T h (pre_incr i) e (acc @ [p]))
      else Inr acc)"
  by pat_completeness auto
termination
  by (relation "measure (\<lambda>(T, h, i, e, acc). nat (int (length (vec (iter i))) - pos (iter i)))")
    (auto simp: deref_def iterator_value_def base_deref_def pre_incr_def base_plus_def
      split: if_splits sum.splits)

definition iterate ::
  "('k \<Rightarrow> bool) \<Rightarrow> ('k, 'm, 'p) store \<Rightarrow> Range \<Rightarrow> failure + NodePtr list" where
  "iterate T h r = range_for T h (Range_begin r) (Range_end r) []"

text \<open>
  The sub-span \<open>[i, j)\<close> of a vector, as the pair of iterators \<^verbatim>\<open>S.begin() + i\<close> and
  \<^verbatim>\<open>S.begin() + j\<close>.
\<close>

definition sub_span :: "NodePtr list \<Rightarrow> nat \<Rightarrow> nat \<Rightarrow> Range" where
  "sub_span S i j =
     Range_span (base_plus (vector_begin S) (int i)) (base_plus (vector_begin S) (int j))"

text \<open>
  A range that views a real span: both iterators are in the same vector, in order and
  within it. A vector holds fewer than \<open>2 ^ 63\<close> elements, so that distances are
  \<^verbatim>\<open>difference_type\<close> values.
\<close>

definition valid_span :: "Range \<Rightarrow> bool" where
  "valid_span r =
     (vec (iter (m_begin r)) = vec (iter (m_end r)) \<and>
      0 \<le> pos (iter (m_begin r)) \<and>
      pos (iter (m_begin r)) \<le> pos (iter (m_end r)) \<and>
      pos (iter (m_end r)) \<le> int (length (vec (iter (m_end r)))) \<and>
      length (vec (iter (m_end r))) < 2 ^ 63)"

text \<open>The elements a range views, in the order of the vector.\<close>

definition elements :: "Range \<Rightarrow> NodePtr list" where
  "elements r =
     take (nat (pos (iter (m_end r)) - pos (iter (m_begin r))))
       (drop (nat (pos (iter (m_begin r)))) (vec (iter (m_begin r))))"

section \<open>The documentation generator\<close>

text \<open>
  The script reads the JSON that \<^verbatim>\<open>spicy-doc\<close> prints: a list of objects, one for each
  operator or method. The fields of an object have fixed types; a field that the object
  lacks is \<open>None\<close>, which is also what \<^verbatim>\<open>m.get(key)\<close> returns for it.
\<close>

datatype py_error = KeyError | TypeError | AttributeError

record Operand =
  operand_const :: "string option"
  operand_mutable :: "bool option"
  operand_default :: "string option"
  operand_id :: "string option"
  operand_optional :: "bool option"
  operand_doc :: "string option"
  operand_type :: "string option"

record Entry =
  entry_kind :: "string option"
  entry_doc :: "string option"
  entry_namespace :: "string option"
  entry_operands :: "Operand list option"
  entry_operator :: "string option"
  entry_rtype :: "string option"
  entry_commutative :: "bool option"
  entry_args :: "Operand list option"
  entry_id :: "string option"
  entry_self :: "Operand option"

definition NamespaceMappings :: "string \<Rightarrow> string option" where
  "NamespaceMappings =
     map_of [(''signed_integer'', ''integer''),
             (''unsigned_integer'', ''integer''),
             (''struct_'', ''struct'')]"

text \<open>\<^verbatim>\<open>NamespaceMappings.get(ns, ns)\<close>, where \<open>ns\<close> is a string or \<open>None\<close>.\<close>

definition namespace :: "string option \<Rightarrow> string option" where
  "namespace ns =
     (case ns of
        None \<Rightarrow> None
      | Some s \<Rightarrow> (case NamespaceMappings s of None \<Rightarrow> Some s | Some v \<Rightarrow> Some v))"

text \<open>\<^verbatim>\<open>Operand(m)\<close> copies the seven fields of the object.\<close>

definition Operand_init :: "Operand \<Rightarrow> Operand" where
  "Operand_init m =
     \<lparr>operand_const = operand_const m, operand_mutable = operand_mutable m,
      operand_default = operand_default m, operand_id = operand_id m,
      operand_optional = operand_optional m, operand_doc = operand_doc m,
      operand_type = operand_type m\<rparr>"

record Operator =
  op_doc :: "string option"
  op_kind :: "string option"
  op_namespace :: "string option"
  op_operands :: "Operand list"
  op_operator :: "string option"
  op_rtype :: "string option"
  op_commutative :: "bool option"

text \<open>
  \<^verbatim>\<open>Operator(m)\<close>. The list comprehension over \<^verbatim>\<open>m.get("operands")\<close> raises
  \<^verbatim>\<open>TypeError\<close> when the field is missing.
\<close>

definition Operator_init :: "Entry \<Rightarrow> py_error + Operator" where
  "Operator_init m =
     (case entry_operands m of
        None \<Rightarrow> Inl TypeError
      | Some os \<Rightarrow>
          Inr \<lparr>op_doc = entry_doc m, op_kind = entry_kind m,
               op_namespace = namespace (entry_namespace m),
               op_operands = map Operand_init os,
               op_operator = entry_operator m, op_rtype = entry_rtype m,
               op_commutative = entry_commutative m\<rparr>)"

record Method =
  method_args :: "Operand list"
  method_doc :: "string option"
  method_id :: "string option"
  method_kind :: "string option"
  method_namespace :: "string option"
  method_rtype :: "string option"
  method_self :: Operand

text \<open>
  \<^verbatim>\<open>Method(m)\<close>: \<^verbatim>\<open>TypeError\<close> when \<^verbatim>\<open>args\<close> is missing, then \<^verbatim>\<open>AttributeError\<close> when
  \<^verbatim>\<open>self\<close> is missing (\<^verbatim>\<open>Operand(None)\<close> calls \<^verbatim>\<open>None.get\<close>).
\<close>

definition Method_init :: "Entry \<Rightarrow> py_error + Method" where
  "Method_init m =
     (case entry_args m of
        None \<Rightarrow> Inl TypeError
      | Some as \<Rightarrow>
          (case entry_self m of
             None \<Rightarrow> Inl AttributeError
           | Some s \<Rightarrow>
               Inr \<lparr>method_args = map Operand_init as, method_doc = entry_doc m,
                    method_id = entry_id m, method_kind = entry_kind m,
                    method_namespace = namespace (entry_namespace m),
                    method_rtype = entry_rtype m, method_self = Operand_init s\<rparr>))"

text \<open>
  The two tables \<^verbatim>\<open>operators\<close> and \<^verbatim>\<open>methods\<close>, from a namespace to the list of its
  entries. \<^verbatim>\<open>x = d.setdefault(k, []); x += [v]\<close> appends \<open>v\<close> to the list stored at \<open>k\<close>.
\<close>

record tables =
  operators :: "string option \<Rightarrow> Operator list option"
  methods :: "string option \<Rightarrow> Method list option"

definition setdefault_append ::
  "('k \<Rightarrow> 'v list option) \<Rightarrow> 'k \<Rightarrow> 'v \<Rightarrow> ('k \<Rightarrow> 'v list option)" where
  "setdefault_append d k v = d(k \<mapsto> (case d k of None \<Rightarrow> [] | Some xs \<Rightarrow> xs) @ [v])"

text \<open>\<^verbatim>\<open>d.get(k, [])\<close>\<close>

definition get_list :: "('k \<Rightarrow> 'v list option) \<Rightarrow> 'k \<Rightarrow> 'v list" where
  "get_list d k = (case d k of None \<Rightarrow> [] | Some xs \<Rightarrow> xs)"

text \<open>
  The body of the main loop \<^verbatim>\<open>for op in meta\<close>. \<^verbatim>\<open>op["kind"]\<close> raises \<^verbatim>\<open>KeyError\<close>
  when the object has no kind. \<^verbatim>\<open>copy.copy(m2)\<close> is a new object with the fields of
  \<open>m2\<close>, two of which are then overwritten.
\<close>

definition main_step :: "tables \<Rightarrow> Entry \<Rightarrow> py_error + tables" where
  "main_step t op =
     (case entry_kind op of
        None \<Rightarrow> Inl KeyError
      | Some k \<Rightarrow>
          if k = ''MemberCall'' then
            (case Method_init op of
               Inl e \<Rightarrow> Inl e
             | Inr m1 \<Rightarrow>
                 Inr (t\<lparr>methods := setdefault_append (methods t) (method_namespace m1) m1\<rparr>))
          else
            (case Operator_init op of
               Inl e \<Rightarrow> Inl e
             | Inr m2 \<Rightarrow>
                 (let t2 = t\<lparr>operators := setdefault_append (operators t) (op_namespace m2) m2\<rparr>
                  in if op_kind m2 = Some ''In'' then
                       (let m3 = m2\<lparr>op_kind := Some ''InInv'',
                                   op_doc := Some ''Performs the inverse of the corresponding ``in`` operation.''\<rparr>
                        in Inr (t2\<lparr>operators :=
                                      setdefault_append (operators t2) (op_namespace m3) m3\<rparr>))
                     else Inr t2)))"

text \<open>The loop over the list \<^verbatim>\<open>meta\<close>; an exception ends the script.\<close>

fun main_loop :: "tables \<Rightarrow> Entry list \<Rightarrow> py_error + tables" where
  "main_loop t [] = Inr t"
| "main_loop t (op # ops) =
     (case main_step t op of Inl e \<Rightarrow> Inl e | Inr t' \<Rightarrow> main_loop t' ops)"

text \<open>The tables before the loop: both empty.\<close>

definition initial_tables :: tables where
  "initial_tables = \<lparr>operators = (\<lambda>ns. None), methods = (\<lambda>ns. None)\<rparr>"

text \<open>
  The statement of C10, as a function: what an input object is expected to add to the
  operators of a namespace. Nothing for a method; its operator for any other kind,
  followed, for the kind \<^verbatim>\<open>In\<close> only, by the same operator with the kind \<^verbatim>\<open>InInv\<close> and
  the fixed text.
\<close>

definition expected_contribution :: "string option \<Rightarrow> Entry \<Rightarrow> Operator list" where
  "expected_contribution ns e =
     (if entry_kind e = Some ''MemberCall'' then []
      else
        (case Operator_init e of
           Inl err \<Rightarrow> []
         | Inr m \<Rightarrow>
             if op_namespace m \<noteq> ns then []
             else if op_kind m = Some ''In'' then
               [m, m\<lparr>op_kind := Some ''InInv'',
                      op_doc := Some ''Performs the inverse of the corresponding ``in`` operation.''\<rparr>]
             else [m]))"

text \<open>An input object that the loop body accepts: it has a kind and the fields its class reads.\<close>

definition well_formed :: "Entry \<Rightarrow> bool" where
  "well_formed e =
     (entry_kind e \<noteq> None \<and>
      (if entry_kind e = Some ''MemberCall'' then entry_args e \<noteq> None \<and> entry_self e \<noteq> None
       else entry_operands e \<noteq> None))"

section \<open>The walker\<close>

text \<open>
  Modelled from the spec: the tree that the Walker goes over. The Walker is not among
  the sources; only the declaration of \<^verbatim>\<open>pruneWalk()\<close> is, with the comment that it is
  true when AST walking is not to visit the children of the node. The walker goes over
  the ownership tree, in which a node owns the sequence of its children, so the tree is
  a value here and a node of it is named by its path from the root (the indices of the
  children taken).
\<close>

datatype 'k Tree = Tree (tree_kind: 'k) (tree_pruneWalk: bool) (tree_children: "'k Tree list")

datatype order = PreOrder | PostOrder

type_synonym path = "nat list"

text \<open>
  Modelled from the spec: the Walker. The traversal is depth first, children from left
  to right, a node before its children (pre-order) or after them (post-order); below a
  visited node whose \<^verbatim>\<open>pruneWalk()\<close> is true the walker does not descend. The result is
  the list of the nodes visited, in the order of the visits.
\<close>

fun walk :: "order \<Rightarrow> 'k Tree \<Rightarrow> path list"
  and walk_children :: "order \<Rightarrow> nat \<Rightarrow> 'k Tree list \<Rightarrow> path list" where
  "walk ord (Tree k p cs) =
     (let below = (if p then [] else walk_children ord 0 cs)
      in case ord of PreOrder \<Rightarrow> [] # below | PostOrder \<Rightarrow> below @ [[]])"
| "walk_children ord i [] = []"
| "walk_children ord i (c # cs) = map ((#) i) (walk ord c) @ walk_children ord (Suc i) cs"

text \<open>The node of a tree at a path, when the path leads to one.\<close>

fun node_at :: "'k Tree \<Rightarrow> path \<Rightarrow> 'k Tree option" where
  "node_at t [] = Some t"
| "node_at t (i # p) =
     (if i < length (tree_children t) then node_at (tree_children t ! i) p else None)"

text \<open>Some node strictly above the end of the path has \<^verbatim>\<open>pruneWalk()\<close> true.\<close>

fun pruned_above :: "'k Tree \<Rightarrow> path \<Rightarrow> bool" where
  "pruned_above t [] = False"
| "pruned_above t (i # p) =
     (tree_pruneWalk t \<or>
      (i < length (tree_children t) \<and> pruned_above (tree_children t ! i) p))"

section \<open>Properties of RangeIterator and Range\<close>

declare range_for.simps [simp del] eq_loop.simps [simp del]

subsection \<open>Iterators at a position of a vector\<close>

lemma deref_at:
  "i < length S \<Longrightarrow>
   deref T h (RangeIterator \<lparr>vec = S, pos = int i\<rparr>) =
     (if satisfies T h (S ! i) then Inr (S ! i) else Inl AssertionFailure)"
  by (auto simp: deref_def iterator_value_def base_deref_def dynamic_pointer_cast_def
      satisfies_def Let_def split: option.splits)

lemma pre_incr_at:
  "pre_incr (RangeIterator \<lparr>vec = S, pos = int i\<rparr>) = RangeIterator \<lparr>vec = S, pos = int (Suc i)\<rparr>"
  by (simp add: pre_incr_def base_plus_def)

lemma post_incr_at:
  "post_incr (RangeIterator \<lparr>vec = S, pos = int i\<rparr>) =
     (RangeIterator \<lparr>vec = S, pos = int i\<rparr>, RangeIterator \<lparr>vec = S, pos = int (Suc i)\<rparr>)"
  by (simp add: post_incr_def base_plus_def)

lemma iterator_neq_at:
  "iterator_neq (RangeIterator \<lparr>vec = S, pos = int i\<rparr>) (RangeIterator \<lparr>vec = S, pos = int j\<rparr>)
     = (i \<noteq> j)"
  by (simp add: iterator_neq_def iterator_eq_def)

lemma valid_span_shape:
  assumes "valid_span r"
  obtains S i n where
    "m_begin r = RangeIterator \<lparr>vec = S, pos = int i\<rparr>"
    "m_end r = RangeIterator \<lparr>vec = S, pos = int (i + n)\<rparr>"
    "i + n \<le> length S" "length S < 2 ^ 63" "elements r = take n (drop i S)"
proof -
  let ?b = "iter (m_begin r)" and ?e = "iter (m_end r)"
  let ?S = "vec ?b" and ?i = "nat (pos ?b)" and ?n = "nat (pos ?e - pos ?b)"
  from assms have v: "vec ?e = ?S" "0 \<le> pos ?b" "pos ?b \<le> pos ?e" "pos ?e \<le> int (length ?S)"
    "length ?S < 2 ^ 63"
    by (simp_all add: valid_span_def)
  have b: "?b = \<lparr>vec = ?S, pos = int ?i\<rparr>" using v by simp
  have e: "?e = \<lparr>vec = ?S, pos = int (?i + ?n)\<rparr>" using v by simp
  have 1: "m_begin r = RangeIterator \<lparr>vec = ?S, pos = int ?i\<rparr>"
    using b by (metis RangeIterator.collapse)
  have 2: "m_end r = RangeIterator \<lparr>vec = ?S, pos = int (?i + ?n)\<rparr>"
    using e by (metis RangeIterator.collapse)
  have 3: "?i + ?n \<le> length ?S" using v by linarith
  have 4: "elements r = take ?n (drop ?i ?S)" by (simp add: elements_def)
  from 1 2 3 v(5) 4 show thesis by (rule that)
qed

lemma size_eq_iff:
  assumes "n < 2 ^ 63" "n' < 2 ^ 63"
  shows "((word_of_int (int n) :: 64 word) = word_of_int (int n')) = (n = n')"
proof -
  have "(2::nat) ^ 63 < 2 ^ 64" by simp
  with assms have "n < 2 ^ 64" "n' < 2 ^ 64" by linarith+
  then have "take_bit 64 n = n" "take_bit 64 n' = n'"
    by (simp_all add: take_bit_nat_eq_self)
  then show ?thesis
    using word_of_nat_eq_iff [where ?'a = 64, of n n'] by simp
qed

subsection \<open>Construction and dereference\<close>


text \<open>
  C1. Construction stores the two positions as they are, whatever the elements of the
  span are (it has no access to the store or to \<open>T\<close>). Dereferencing an iterator at an
  element \<open>p\<close> returns \<open>p\<close> itself, non-null, when \<open>p\<close> satisfies \<open>T\<close>, and fails the
  assertion when it does not; it never returns a null handle.
\<close>

theorem construction_unchecked_deref_checked:
  "Range_begin (Range_span b e) = RangeIterator b \<and>
   Range_end (Range_span b e) = RangeIterator e \<and>
   Range_begin (Range_of nodes) = RangeIterator (vector_begin nodes) \<and>
   Range_end (Range_of nodes) = RangeIterator (vector_end nodes) \<and>
   (node it = Inr p \<and> satisfies T h p \<longrightarrow> deref T h it = Inr p \<and> p \<noteq> None) \<and>
   (node it = Inr p \<and> \<not> satisfies T h p \<longrightarrow> deref T h it = Inl AssertionFailure) \<and>
   deref T h it \<noteq> Inr None"
  by (auto simp: Range_begin_def Range_end_def Range_span_def Range_of_def node_def deref_def
      iterator_value_def dynamic_pointer_cast_def satisfies_def Let_def
      split: sum.splits option.splits if_splits)

theorem construction_unchecked_deref_checked_witness:
  "node (RangeIterator (vector_begin [Some 0, Some 1])) = Inr (Some 0) \<and>
   satisfies (\<lambda>k. k = ''Expression'')
     [\<lparr>kind = ''Expression'', children = [], meta = (), properties = (), pruneWalk = False\<rparr>,
      \<lparr>kind = ''Type'', children = [], meta = (), properties = (), pruneWalk = False\<rparr>] (Some 0) \<and>
   deref (\<lambda>k. k = ''Expression'')
     [\<lparr>kind = ''Expression'', children = [], meta = (), properties = (), pruneWalk = False\<rparr>,
      \<lparr>kind = ''Type'', children = [], meta = (), properties = (), pruneWalk = False\<rparr>]
     (RangeIterator (vector_begin [Some 0, Some 1])) = Inr (Some 0) \<and>
   node (pre_incr (RangeIterator (vector_begin [Some 0, Some 1]))) = Inr (Some 1) \<and>
   \<not> satisfies (\<lambda>k. k = ''Expression'')
     [\<lparr>kind = ''Expression'', children = [], meta = (), properties = (), pruneWalk = False\<rparr>,
      \<lparr>kind = ''Type'', children = [], meta = (), properties = (), pruneWalk = False\<rparr>] (Some 1) \<and>
   deref (\<lambda>k. k = ''Expression'')
     [\<lparr>kind = ''Expression'', children = [], meta = (), properties = (), pruneWalk = False\<rparr>,
      \<lparr>kind = ''Type'', children = [], meta = (), properties = (), pruneWalk = False\<rparr>]
     (pre_incr (RangeIterator (vector_begin [Some 0, Some 1]))) = Inl AssertionFailure"
proof -
  let ?T = "\<lambda>k. k = ''Expression''"
  let ?h = "[\<lparr>kind = ''Expression'', children = [], meta = (), properties = (), pruneWalk = False\<rparr>,
      \<lparr>kind = ''Type'', children = [], meta = (), properties = (), pruneWalk = False\<rparr>]"
  let ?i0 = "RangeIterator (vector_begin [Some 0, Some 1])"
  have n0: "node ?i0 = Inr (Some 0)"
    by (simp add: node_def base_deref_def vector_begin_def)
  have s0: "satisfies ?T ?h (Some 0)"
    by (simp add: satisfies_def)
  have n1: "node (pre_incr ?i0) = Inr (Some 1)"
    by (simp add: node_def base_deref_def vector_begin_def pre_incr_def base_plus_def)
  have s1: "\<not> satisfies ?T ?h (Some 1)"
    by (simp add: satisfies_def)
  from construction_unchecked_deref_checked [of _ _ _ ?i0 "Some 0" ?T ?h] n0 s0
  have d0: "deref ?T ?h ?i0 = Inr (Some 0)"
    by blast
  from construction_unchecked_deref_checked [of _ _ _ "pre_incr ?i0" "Some 1" ?T ?h] n1 s1
  have d1: "deref ?T ?h (pre_incr ?i0) = Inl AssertionFailure"
    by blast
  from n0 s0 d0 n1 s1 d1 show ?thesis
    by blast
qed

subsection \<open>Order of iteration\<close>

lemma range_for_span:
  "i \<le> j \<Longrightarrow> j \<le> length S \<Longrightarrow> (\<forall>k. i \<le> k \<and> k < j \<longrightarrow> satisfies T h (S ! k)) \<Longrightarrow>
   range_for T h (RangeIterator \<lparr>vec = S, pos = int i\<rparr>) (RangeIterator \<lparr>vec = S, pos = int j\<rparr>) acc
     = Inr (acc @ map ((!) S) [i..<j])"
proof (induction "j - i" arbitrary: i acc)
  case 0
  then have "i = j" by simp
  then show ?case
    by (subst range_for.simps) (simp add: iterator_neq_at)
next
  case (Suc n)
  then have lt: "i < j" and n: "n = j - Suc i" by auto
  with Suc.prems have sat: "satisfies T h (S ! i)" and len: "i < length S" by auto
  have "range_for T h (RangeIterator \<lparr>vec = S, pos = int (Suc i)\<rparr>)
          (RangeIterator \<lparr>vec = S, pos = int j\<rparr>) (acc @ [S ! i])
        = Inr ((acc @ [S ! i]) @ map ((!) S) [Suc i..<j])"
    using Suc.hyps(1) [OF n] lt Suc.prems by auto
  then show ?case
    using lt sat len
    by (subst range_for.simps) (simp add: iterator_neq_at deref_at pre_incr_at upt_conv_Cons)
qed

text \<open>
  C2. Iterating the range over the sub-span \<open>[i, j)\<close> of \<open>S\<close>, whose elements satisfy
  \<open>T\<close>, returns the handles of \<open>S ! i\<close>, ..., \<open>S ! (j - 1)\<close> in this order: each once,
  none left out.
\<close>

theorem iterate_sub_span:
  "i \<le> j \<Longrightarrow> j \<le> length S \<Longrightarrow> (\<forall>k. i \<le> k \<and> k < j \<longrightarrow> satisfies T h (S ! k)) \<Longrightarrow>
   iterate T h (sub_span S i j) = Inr (map ((!) S) [i..<j])"
  using range_for_span [of i j S T h "[]"]
  by (simp add: iterate_def sub_span_def Range_begin_def Range_end_def Range_span_def
      base_plus_def vector_begin_def)

theorem iterate_sub_span_witness:
  "(1::nat) \<le> 3 \<and> 3 \<le> length [Some 0, Some 1, Some 2, Some (3::nat)] \<and>
   satisfies ((=) ''Expression'')
     [\<lparr>kind = ''Type'', children = [], meta = (), properties = (), pruneWalk = False\<rparr>,
      \<lparr>kind = ''Expression'', children = [], meta = (), properties = (), pruneWalk = False\<rparr>,
      \<lparr>kind = ''Expression'', children = [], meta = (), properties = (), pruneWalk = False\<rparr>,
      \<lparr>kind = ''Type'', children = [], meta = (), properties = (), pruneWalk = False\<rparr>]
     ([Some 0, Some 1, Some 2, Some 3] ! 1) \<and>
   satisfies ((=) ''Expression'')
     [\<lparr>kind = ''Type'', children = [], meta = (), properties = (), pruneWalk = False\<rparr>,
      \<lparr>kind = ''Expression'', children = [], meta = (), properties = (), pruneWalk = False\<rparr>,
      \<lparr>kind = ''Expression'', children = [], meta = (), properties = (), pruneWalk = False\<rparr>,
      \<lparr>kind = ''Type'', children = [], meta = (), properties = (), pruneWalk = False\<rparr>]
     ([Some 0, Some 1, Some 2, Some 3] ! 2) \<and>
   iterate ((=) ''Expression'')
     [\<lparr>kind = ''Type'', children = [], meta = (), properties = (), pruneWalk = False\<rparr>,
      \<lparr>kind = ''Expression'', children = [], meta = (), properties = (), pruneWalk = False\<rparr>,
      \<lparr>kind = ''Expression'', children = [], meta = (), properties = (), pruneWalk = False\<rparr>,
      \<lparr>kind = ''Type'', children = [], meta = (), properties = (), pruneWalk = False\<rparr>]
     (sub_span [Some 0, Some 1, Some 2, Some 3] 1 3) = Inr [Some 1, Some 2]"
proof -
  let ?h = "[\<lparr>kind = ''Type'', children = [], meta = (), properties = (), pruneWalk = False\<rparr>,
      \<lparr>kind = ''Expression'', children = [], meta = (), properties = (), pruneWalk = False\<rparr>,
      \<lparr>kind = ''Expression'', children = [], meta = (), properties = (), pruneWalk = False\<rparr>,
      \<lparr>kind = ''Type'', children = [], meta = (), properties = (), pruneWalk = False\<rparr>]"
  let ?S = "[Some 0, Some 1, Some 2, Some (3::nat)]"
  have s1: "satisfies ((=) ''Expression'') ?h (?S ! 1)" by (simp add: satisfies_def)
  have s2: "satisfies ((=) ''Expression'') ?h (?S ! 2)" by (simp add: satisfies_def)
  have hyp: "\<forall>k. 1 \<le> k \<and> k < 3 \<longrightarrow> satisfies ((=) ''Expression'') ?h (?S ! k)"
  proof (intro allI impI)
    fix k :: nat
    assume "1 \<le> k \<and> k < 3"
    then have "k = 1 \<or> k = 2" by auto
    with s1 s2 show "satisfies ((=) ''Expression'') ?h (?S ! k)" by auto
  qed
  have "iterate ((=) ''Expression'') ?h (sub_span ?S 1 3) = Inr (map ((!) ?S) [1..<3])"
    by (rule iterate_sub_span [OF _ _ hyp]) simp_all
  moreover have "map ((!) ?S) [1..<3] = [Some 1, Some 2]"
    by (simp add: upt_rec)
  ultimately show ?thesis using s1 s2 by simp
qed

subsection \<open>Equality of ranges\<close>

lemma eq_loop_span:
  "i + n \<le> length S \<Longrightarrow> j + n \<le> length S' \<Longrightarrow>
   (eq_loop T h (RangeIterator \<lparr>vec = S, pos = int i\<rparr>) (RangeIterator \<lparr>vec = S', pos = int j\<rparr>)
      (RangeIterator \<lparr>vec = S, pos = int (i + n)\<rparr>) = Inr True)
   = (\<forall>k<n. S ! (i + k) = S' ! (j + k) \<and> satisfies T h (S ! (i + k)))"
proof (induction n arbitrary: i j)
  case 0
  show ?case
    by (subst eq_loop.simps) (simp add: iterator_neq_at)
next
  case (Suc n)
  have e: "int (i + Suc n) = int (Suc i + n)" by simp
  have ih: "(eq_loop T h (RangeIterator \<lparr>vec = S, pos = int (Suc i)\<rparr>)
      (RangeIterator \<lparr>vec = S', pos = int (Suc j)\<rparr>)
      (RangeIterator \<lparr>vec = S, pos = int (i + Suc n)\<rparr>) = Inr True)
   = (\<forall>k<n. S ! (Suc i + k) = S' ! (Suc j + k) \<and> satisfies T h (S ! (Suc i + k)))"
    unfolding e using Suc.prems by (intro Suc.IH) auto
  have split: "\<And>P. (\<forall>k<Suc n. P k) = (P 0 \<and> (\<forall>k<n. P (Suc k)))"
    by (auto simp: less_Suc_eq_0_disj)
  have li: "i < length S" and lj: "j < length S'" using Suc.prems by auto
  have sat: "S ! i = S' ! j \<Longrightarrow> satisfies T h (S' ! j) = satisfies T h (S ! i)" by simp
  show ?case
    apply (subst eq_loop.simps)
    apply (subst split)
    using li lj ih
    apply (auto simp: iterator_neq_at post_incr_at deref_at simp del: of_nat_add of_nat_Suc)
    done
qed

lemma eq_loop_same_span:
  "i + n \<le> length S \<Longrightarrow>
   eq_loop T h (RangeIterator \<lparr>vec = S, pos = int i\<rparr>) (RangeIterator \<lparr>vec = S, pos = int i\<rparr>)
      (RangeIterator \<lparr>vec = S, pos = int (i + n)\<rparr>) =
   (if \<forall>k<n. satisfies T h (S ! (i + k)) then Inr True else Inl AssertionFailure)"
proof (induction n arbitrary: i)
  case 0
  show ?case
    by (subst eq_loop.simps) (simp add: iterator_neq_at)
next
  case (Suc n)
  have e: "int (i + Suc n) = int (Suc i + n)" by simp
  have ih: "eq_loop T h (RangeIterator \<lparr>vec = S, pos = int (Suc i)\<rparr>)
      (RangeIterator \<lparr>vec = S, pos = int (Suc i)\<rparr>)
      (RangeIterator \<lparr>vec = S, pos = int (i + Suc n)\<rparr>) =
   (if \<forall>k<n. satisfies T h (S ! (Suc i + k)) then Inr True else Inl AssertionFailure)"
    unfolding e using Suc.prems by (intro Suc.IH) auto
  have split: "\<And>P. (\<forall>k<Suc n. P k) = (P 0 \<and> (\<forall>k<n. P (Suc k)))"
    by (auto simp: less_Suc_eq_0_disj)
  have li: "i < length S" using Suc.prems by auto
  show ?case
    apply (subst eq_loop.simps)
    apply (subst split)
    using li ih
    apply (auto simp: iterator_neq_at post_incr_at deref_at simp del: of_nat_add of_nat_Suc)
    done
qed

lemma Range_eq_true_iff:
  assumes "a1 < length objs" "a2 < length objs"
    and "valid_span (objs ! a1)" "valid_span (objs ! a2)"
  shows "(Range_eq T h objs a1 a2 = Inr True) =
    (a1 = a2 \<or>
     length (elements (objs ! a1)) = length (elements (objs ! a2)) \<and>
     (\<forall>k<length (elements (objs ! a1)).
        elements (objs ! a1) ! k = elements (objs ! a2) ! k \<and>
        satisfies T h (elements (objs ! a1) ! k)))"
proof (cases "a1 = a2")
  case True
  then show ?thesis by (simp add: Range_eq_def)
next
  case False
  from assms(3) obtain S i n where r:
    "m_begin (objs ! a1) = RangeIterator \<lparr>vec = S, pos = int i\<rparr>"
    "m_end (objs ! a1) = RangeIterator \<lparr>vec = S, pos = int (i + n)\<rparr>"
    "i + n \<le> length S" "length S < 2 ^ 63" "elements (objs ! a1) = take n (drop i S)"
    by (rule valid_span_shape)
  from assms(4) obtain S' j n' where s:
    "m_begin (objs ! a2) = RangeIterator \<lparr>vec = S', pos = int j\<rparr>"
    "m_end (objs ! a2) = RangeIterator \<lparr>vec = S', pos = int (j + n')\<rparr>"
    "j + n' \<le> length S'" "length S' < 2 ^ 63" "elements (objs ! a2) = take n' (drop j S')"
    by (rule valid_span_shape)
  have n: "n < 2 ^ 63" "n' < 2 ^ 63" using r(3,4) s(3,4) by linarith+
  have sz: "(Range_size (objs ! a1) = Range_size (objs ! a2)) = (n = n')"
    using size_eq_iff [OF n] by (simp add: Range_size_def iterator_diff_def r s)
  have len: "length (elements (objs ! a1)) = n" "length (elements (objs ! a2)) = n'"
    using r s by simp_all
  show ?thesis
  proof (cases "n = n'")
    case neq: False
    then show ?thesis using False assms(1,2) sz len by (simp add: Range_eq_def)
  next
    case eq: True
    have "(Range_eq T h objs a1 a2 = Inr True) =
      (\<forall>k<n. S ! (i + k) = S' ! (j + k) \<and> satisfies T h (S ! (i + k)))"
      using False assms(1,2) sz eq eq_loop_span [of i n S j S' T h] r s
      by (simp add: Range_eq_def)
    also have "\<dots> = (\<forall>k<n. elements (objs ! a1) ! k = elements (objs ! a2) ! k \<and>
        satisfies T h (elements (objs ! a1) ! k))"
      using r s eq by simp
    finally show ?thesis using False len eq by simp
  qed
qed

lemma eq_loop_total:
  "i + n \<le> length S \<Longrightarrow> j + n \<le> length S' \<Longrightarrow>
   (\<forall>k<n. satisfies T h (S ! (i + k)) \<and> satisfies T h (S' ! (j + k))) \<Longrightarrow>
   \<exists>b. eq_loop T h (RangeIterator \<lparr>vec = S, pos = int i\<rparr>)
      (RangeIterator \<lparr>vec = S', pos = int j\<rparr>)
      (RangeIterator \<lparr>vec = S, pos = int (i + n)\<rparr>) = Inr b"
proof (induction n arbitrary: i j)
  case 0
  show ?case
    by (subst eq_loop.simps) (auto simp: iterator_neq_at)
next
  case (Suc n)
  have e: "int (i + Suc n) = int (Suc i + n)" by simp
  have "\<forall>k<n. satisfies T h (S ! (Suc i + k)) \<and> satisfies T h (S' ! (Suc j + k))"
  proof (intro allI impI)
    fix k assume "k < n"
    then have "Suc k < Suc n" by simp
    with Suc.prems(3) have "satisfies T h (S ! (i + Suc k)) \<and> satisfies T h (S' ! (j + Suc k))"
      by blast
    then show "satisfies T h (S ! (Suc i + k)) \<and> satisfies T h (S' ! (Suc j + k))" by simp
  qed
  with Suc.prems(1,2) have ih: "\<exists>b. eq_loop T h (RangeIterator \<lparr>vec = S, pos = int (Suc i)\<rparr>)
      (RangeIterator \<lparr>vec = S', pos = int (Suc j)\<rparr>)
      (RangeIterator \<lparr>vec = S, pos = int (i + Suc n)\<rparr>) = Inr b"
    unfolding e by (intro Suc.IH) auto
  from Suc.prems(3) have "satisfies T h (S ! (i + 0)) \<and> satisfies T h (S' ! (j + 0))"
    by blast
  then have sat: "satisfies T h (S ! i)" "satisfies T h (S' ! j)" by simp_all
  have li: "i < length S" and lj: "j < length S'" using Suc.prems by auto
  show ?case
    apply (subst eq_loop.simps)
    using li lj ih sat
    apply (auto simp: iterator_neq_at post_incr_at deref_at simp del: of_nat_add of_nat_Suc)
    done
qed

lemma Range_eq_total:
  assumes "a1 < length objs" "a2 < length objs"
    and "valid_span (objs ! a1)" "valid_span (objs ! a2)"
    and "\<forall>p\<in>set (elements (objs ! a1)). satisfies T h p"
    and "\<forall>p\<in>set (elements (objs ! a2)). satisfies T h p"
  shows "\<exists>b. Range_eq T h objs a1 a2 = Inr b"
proof (cases "a1 = a2 \<or> Range_size (objs ! a1) \<noteq> Range_size (objs ! a2)")
  case True
  then show ?thesis using assms(1,2) by (auto simp: Range_eq_def)
next
  case False
  from assms(3) obtain S i n where r:
    "m_begin (objs ! a1) = RangeIterator \<lparr>vec = S, pos = int i\<rparr>"
    "m_end (objs ! a1) = RangeIterator \<lparr>vec = S, pos = int (i + n)\<rparr>"
    "i + n \<le> length S" "length S < 2 ^ 63" "elements (objs ! a1) = take n (drop i S)"
    by (rule valid_span_shape)
  from assms(4) obtain S' j n' where s:
    "m_begin (objs ! a2) = RangeIterator \<lparr>vec = S', pos = int j\<rparr>"
    "m_end (objs ! a2) = RangeIterator \<lparr>vec = S', pos = int (j + n')\<rparr>"
    "j + n' \<le> length S'" "length S' < 2 ^ 63" "elements (objs ! a2) = take n' (drop j S')"
    by (rule valid_span_shape)
  have n: "n < 2 ^ 63" "n' < 2 ^ 63" using r(3,4) s(3,4) by linarith+
  have "(Range_size (objs ! a1) = Range_size (objs ! a2)) = (n = n')"
    using size_eq_iff [OF n] by (simp add: Range_size_def iterator_diff_def r s)
  with False have eq: "n' = n" by simp
  have "\<forall>k<n. satisfies T h (S ! (i + k)) \<and> satisfies T h (S' ! (j + k))"
  proof (intro allI impI)
    fix k assume k: "k < n"
    have l1: "k < length (elements (objs ! a1))" and l2: "k < length (elements (objs ! a2))"
      using k r(3,5) s(3,5) eq by simp_all
    from l1 have "elements (objs ! a1) ! k \<in> set (elements (objs ! a1))" by (rule nth_mem)
    with assms(5) have 1: "satisfies T h (elements (objs ! a1) ! k)" by blast
    from l2 have "elements (objs ! a2) ! k \<in> set (elements (objs ! a2))" by (rule nth_mem)
    with assms(6) have 2: "satisfies T h (elements (objs ! a2) ! k)" by blast
    have "elements (objs ! a1) ! k = S ! (i + k)" "elements (objs ! a2) ! k = S' ! (j + k)"
      using k r(3,5) s(3,5) eq by simp_all
    with 1 2 show "satisfies T h (S ! (i + k)) \<and> satisfies T h (S' ! (j + k))" by simp
  qed
  from eq_loop_total [OF r(3) _ this] s(3) eq
  have "\<exists>b. eq_loop T h (m_begin (objs ! a1)) (m_begin (objs ! a2)) (m_end (objs ! a1)) = Inr b"
    by (simp add: r s)
  then show ?thesis using False assms(1,2) by (simp add: Range_eq_def)
qed

text \<open>
  C4. For two Range objects over valid spans whose elements satisfy \<open>T\<close>, \<^verbatim>\<open>r1 == r2\<close>
  returns a truth value, and it is true exactly when the two ranges have the same
  length and their elements are pairwise equal, under the equality that \<^verbatim>\<open>operator==\<close>
  applies to the elements.
\<close>

theorem Range_eq_pairwise:
  assumes "a1 < length objs" "a2 < length objs"
    and "valid_span (objs ! a1)" "valid_span (objs ! a2)"
    and "\<forall>p\<in>set (elements (objs ! a1)). satisfies T h p"
    and "\<forall>p\<in>set (elements (objs ! a2)). satisfies T h p"
  shows "Range_eq T h objs a1 a2 =
    Inr (length (elements (objs ! a1)) = length (elements (objs ! a2)) \<and>
         (\<forall>k<length (elements (objs ! a1)).
            elements (objs ! a1) ! k = elements (objs ! a2) ! k))"
proof -
  from Range_eq_total [OF assms] obtain b where b: "Range_eq T h objs a1 a2 = Inr b"
    by blast
  have sat: "\<And>k. k < length (elements (objs ! a1)) \<Longrightarrow> satisfies T h (elements (objs ! a1) ! k)"
    using assms(5) by simp
  have "b = (a1 = a2 \<or>
     length (elements (objs ! a1)) = length (elements (objs ! a2)) \<and>
     (\<forall>k<length (elements (objs ! a1)).
        elements (objs ! a1) ! k = elements (objs ! a2) ! k \<and>
        satisfies T h (elements (objs ! a1) ! k)))"
    using Range_eq_true_iff [OF assms(1-4), of T h] b by simp
  also have "\<dots> = (length (elements (objs ! a1)) = length (elements (objs ! a2)) \<and>
         (\<forall>k<length (elements (objs ! a1)).
            elements (objs ! a1) ! k = elements (objs ! a2) ! k))"
    using sat by auto
  finally show ?thesis using b by simp
qed

theorem Range_eq_pairwise_witness:
  "valid_span ([Range_of [Some 0, Some 1], sub_span [Some 2, Some 0, Some 1] 1 3, Range_of [Some 0, Some 2]] ! 0) \<and>
   valid_span ([Range_of [Some 0, Some 1], sub_span [Some 2, Some 0, Some 1] 1 3, Range_of [Some 0, Some 2]] ! 1) \<and>
   valid_span ([Range_of [Some 0, Some 1], sub_span [Some 2, Some 0, Some 1] 1 3, Range_of [Some 0, Some 2]] ! 2) \<and>
   elements ([Range_of [Some 0, Some 1], sub_span [Some 2, Some 0, Some 1] 1 3, Range_of [Some 0, Some 2]] ! 0) = [Some 0, Some 1] \<and>
   elements ([Range_of [Some 0, Some 1], sub_span [Some 2, Some 0, Some 1] 1 3, Range_of [Some 0, Some 2]] ! 1) = [Some 0, Some 1] \<and>
   elements ([Range_of [Some 0, Some 1], sub_span [Some 2, Some 0, Some 1] 1 3, Range_of [Some 0, Some 2]] ! 2) = [Some 0, Some 2] \<and>
   list_all (satisfies ((=) ''Expression'')
     [\<lparr>kind = ''Expression'', children = [], meta = (), properties = (), pruneWalk = False\<rparr>,
      \<lparr>kind = ''Expression'', children = [], meta = (), properties = (), pruneWalk = False\<rparr>,
      \<lparr>kind = ''Expression'', children = [], meta = (), properties = (), pruneWalk = False\<rparr>]) [Some 0, Some 1, Some 2] \<and>
   Range_eq ((=) ''Expression'')
     [\<lparr>kind = ''Expression'', children = [], meta = (), properties = (), pruneWalk = False\<rparr>,
      \<lparr>kind = ''Expression'', children = [], meta = (), properties = (), pruneWalk = False\<rparr>,
      \<lparr>kind = ''Expression'', children = [], meta = (), properties = (), pruneWalk = False\<rparr>]
     [Range_of [Some 0, Some 1], sub_span [Some 2, Some 0, Some 1] 1 3, Range_of [Some 0, Some 2]] 0 1 = Inr True \<and>
   Range_eq ((=) ''Expression'')
     [\<lparr>kind = ''Expression'', children = [], meta = (), properties = (), pruneWalk = False\<rparr>,
      \<lparr>kind = ''Expression'', children = [], meta = (), properties = (), pruneWalk = False\<rparr>,
      \<lparr>kind = ''Expression'', children = [], meta = (), properties = (), pruneWalk = False\<rparr>]
     [Range_of [Some 0, Some 1], sub_span [Some 2, Some 0, Some 1] 1 3, Range_of [Some 0, Some 2]] 0 2 = Inr False"
proof -
  let ?h = "[\<lparr>kind = ''Expression'', children = [], meta = (), properties = (), pruneWalk = False\<rparr>,
      \<lparr>kind = ''Expression'', children = [], meta = (), properties = (), pruneWalk = False\<rparr>,
      \<lparr>kind = ''Expression'', children = [], meta = (), properties = (), pruneWalk = False\<rparr>]"
  let ?objs = "[Range_of [Some 0, Some (1::nat)], sub_span [Some 2, Some 0, Some 1] 1 3,
    Range_of [Some 0, Some 2]]"
  have l: "0 < length ?objs" "1 < length ?objs" "2 < length ?objs" by simp_all
  have v: "valid_span (?objs ! 0)" "valid_span (?objs ! 1)" "valid_span (?objs ! 2)"
    by (simp_all add: valid_span_def Range_of_def sub_span_def Range_span_def vector_begin_def
        vector_end_def base_plus_def)
  have e: "elements (?objs ! 0) = [Some 0, Some 1]" "elements (?objs ! 1) = [Some 0, Some 1]"
    "elements (?objs ! 2) = [Some 0, Some 2]"
    by (simp_all add: elements_def Range_of_def sub_span_def Range_span_def vector_begin_def
        vector_end_def base_plus_def)
  have s: "list_all (satisfies ((=) ''Expression'') ?h) [Some 0, Some 1, Some 2]"
    by (simp add: satisfies_def)
  have s0: "\<forall>p\<in>set (elements (?objs ! 0)). satisfies ((=) ''Expression'') ?h p"
    and s1: "\<forall>p\<in>set (elements (?objs ! 1)). satisfies ((=) ''Expression'') ?h p"
    and s2: "\<forall>p\<in>set (elements (?objs ! 2)). satisfies ((=) ''Expression'') ?h p"
    unfolding e using s by simp_all
  have t: "Range_eq ((=) ''Expression'') ?h ?objs 0 1 = Inr True"
    unfolding Range_eq_pairwise [OF l(1) l(2) v(1) v(2) s0 s1] e
    by (simp add: less_Suc_eq numeral_2_eq_2)
  have f: "Range_eq ((=) ''Expression'') ?h ?objs 0 2 = Inr False"
    unfolding Range_eq_pairwise [OF l(1) l(3) v(1) v(3) s0 s2] e
    by (simp add: less_Suc_eq numeral_2_eq_2)
  from v e s t f show ?thesis by (intro conjI)
qed

text \<open>
  C9. Comparing a Range object with itself returns true whatever the span holds and
  whatever \<open>T\<close> is: no element is read. The same comparison against a second object with
  the same span fails the assertion as soon as some element is not a \<open>T\<close>.
\<close>

theorem Range_eq_self:
  "Range_eq T h objs a a = Inr True \<and>
   (a \<noteq> b \<and> a < length objs \<and> b < length objs \<and> objs ! b = objs ! a \<and>
    valid_span (objs ! a) \<and> (\<exists>p. p \<in> set (elements (objs ! a)) \<and> \<not> satisfies T h p)
    \<longrightarrow> Range_eq T h objs a b = Inl AssertionFailure)"
proof (intro conjI impI)
  show "Range_eq T h objs a a = Inr True"
    by (simp add: Range_eq_def)
next
  assume a: "a \<noteq> b \<and> a < length objs \<and> b < length objs \<and> objs ! b = objs ! a \<and>
    valid_span (objs ! a) \<and> (\<exists>p. p \<in> set (elements (objs ! a)) \<and> \<not> satisfies T h p)"
  then have "valid_span (objs ! a)" by simp
  then obtain S i n where r:
    "m_begin (objs ! a) = RangeIterator \<lparr>vec = S, pos = int i\<rparr>"
    "m_end (objs ! a) = RangeIterator \<lparr>vec = S, pos = int (i + n)\<rparr>"
    "i + n \<le> length S" "length S < 2 ^ 63" "elements (objs ! a) = take n (drop i S)"
    by (rule valid_span_shape)
  from a obtain p where p: "p \<in> set (take n (drop i S))" "\<not> satisfies T h p"
    using r(5) by auto
  then obtain k where "k < n" "p = S ! (i + k)"
    using r(3) by (auto simp: in_set_conv_nth)
  with p have "\<not> (\<forall>k<n. satisfies T h (S ! (i + k)))" by auto
  then show "Range_eq T h objs a b = Inl AssertionFailure"
    using a r eq_loop_same_span [of i n S T h] by (simp add: Range_eq_def)
qed

theorem Range_eq_self_witness:
  "Range_eq ((=) ''Expression'')
     [\<lparr>kind = ''Expression'', children = [], meta = (), properties = (), pruneWalk = False\<rparr>,
      \<lparr>kind = ''Type'', children = [], meta = (), properties = (), pruneWalk = False\<rparr>]
     [Range_of [Some 0, Some 1], Range_of [Some 0, Some 1]] 0 0 = Inr True \<and>
   valid_span ([Range_of [Some 0, Some 1], Range_of [Some 0, Some 1]] ! 0) \<and>
   Some 1 \<in> set (elements ([Range_of [Some 0, Some 1], Range_of [Some 0, Some 1]] ! 0)) \<and>
   \<not> satisfies ((=) ''Expression'')
     [\<lparr>kind = ''Expression'', children = [], meta = (), properties = (), pruneWalk = False\<rparr>,
      \<lparr>kind = ''Type'', children = [], meta = (), properties = (), pruneWalk = False\<rparr>] (Some 1) \<and>
   Range_eq ((=) ''Expression'')
     [\<lparr>kind = ''Expression'', children = [], meta = (), properties = (), pruneWalk = False\<rparr>,
      \<lparr>kind = ''Type'', children = [], meta = (), properties = (), pruneWalk = False\<rparr>]
     [Range_of [Some 0, Some 1], Range_of [Some 0, Some 1]] 0 1 = Inl AssertionFailure"
proof -
  let ?h = "[\<lparr>kind = ''Expression'', children = [], meta = (), properties = (), pruneWalk = False\<rparr>,
      \<lparr>kind = ''Type'', children = [], meta = (), properties = (), pruneWalk = False\<rparr>]"
  let ?objs = "[Range_of [Some 0, Some (1::nat)], Range_of [Some 0, Some 1]]"
  have v: "valid_span (?objs ! 0)"
    by (simp add: valid_span_def Range_of_def Range_span_def vector_begin_def vector_end_def)
  have m: "Some 1 \<in> set (elements (?objs ! 0))"
    by (simp add: elements_def Range_of_def Range_span_def vector_begin_def vector_end_def)
  have n: "\<not> satisfies ((=) ''Expression'') ?h (Some 1)" by (simp add: satisfies_def)
  have e: "\<exists>p. p \<in> set (elements (?objs ! 0)) \<and> \<not> satisfies ((=) ''Expression'') ?h p"
    using m n by blast
  from Range_eq_self [of "((=) ''Expression'')" ?h ?objs 0 1] v e
  have "Range_eq ((=) ''Expression'') ?h ?objs 0 0 = Inr True"
    and "Range_eq ((=) ''Expression'') ?h ?objs 0 1 = Inl AssertionFailure"
    by simp_all
  with v m n show ?thesis by blast
qed

subsection \<open>Size and first element\<close>

text \<open>
  C6, for the members that are well formed. Over a sequence of three elements that all
  satisfy \<open>T\<close>, the range of the whole sequence has size 3 and the range of the sub-span
  \<open>[1, 3)\<close> has size 2; the element at the begin of the narrowed range, as \<^verbatim>\<open>node()\<close> and
  \<^verbatim>\<open>operator*\<close> of \<^verbatim>\<open>begin()\<close> give it, is the element at index 1 of the sequence. The
  member \<^verbatim>\<open>front()\<close> itself is ill-formed and gives nothing.
\<close>

theorem size_scenario:
  "length S = 3 \<Longrightarrow> (\<forall>p\<in>set S. satisfies T h p) \<Longrightarrow>
   Range_size (Range_of S) = 3 \<and>
   Range_size (sub_span S 1 3) = 2 \<and>
   node (Range_begin (sub_span S 1 3)) = Inr (S ! 1) \<and>
   deref T h (Range_begin (sub_span S 1 3)) = Inr (S ! 1)"
  using deref_at [of 1 S T h]
  by (simp add: Range_size_def Range_of_def Range_span_def sub_span_def iterator_diff_def
      vector_begin_def vector_end_def base_plus_def Range_begin_def node_def base_deref_def)

theorem size_scenario_witness:
  "length [Some 0, Some 1, Some (2::nat)] = 3 \<and>
   list_all (satisfies ((=) ''Expression'')
     [\<lparr>kind = ''Expression'', children = [], meta = (), properties = (), pruneWalk = False\<rparr>,
      \<lparr>kind = ''Expression'', children = [], meta = (), properties = (), pruneWalk = False\<rparr>,
      \<lparr>kind = ''Expression'', children = [], meta = (), properties = (), pruneWalk = False\<rparr>]) [Some 0, Some 1, Some 2] \<and>
   Range_size (Range_of [Some 0, Some 1, Some 2]) = 3 \<and>
   Range_size (sub_span [Some 0, Some 1, Some 2] 1 3) = 2 \<and>
   node (Range_begin (sub_span [Some 0, Some 1, Some 2] 1 3)) = Inr (Some 1) \<and>
   deref ((=) ''Expression'')
     [\<lparr>kind = ''Expression'', children = [], meta = (), properties = (), pruneWalk = False\<rparr>,
      \<lparr>kind = ''Expression'', children = [], meta = (), properties = (), pruneWalk = False\<rparr>,
      \<lparr>kind = ''Expression'', children = [], meta = (), properties = (), pruneWalk = False\<rparr>]
     (Range_begin (sub_span [Some 0, Some 1, Some 2] 1 3)) = Inr (Some 1)"
proof -
  let ?h = "[\<lparr>kind = ''Expression'', children = [], meta = (), properties = (), pruneWalk = False\<rparr>,
      \<lparr>kind = ''Expression'', children = [], meta = (), properties = (), pruneWalk = False\<rparr>,
      \<lparr>kind = ''Expression'', children = [], meta = (), properties = (), pruneWalk = False\<rparr>]"
  let ?S = "[Some 0, Some 1, Some (2::nat)]"
  have l: "length ?S = 3" by simp
  have a: "list_all (satisfies ((=) ''Expression'') ?h) ?S" by (simp add: satisfies_def)
  then have b: "\<forall>p\<in>set ?S. satisfies ((=) ''Expression'') ?h p" by (simp only: list_all_iff)
  from size_scenario [OF l b] l a show ?thesis by simp
qed

subsection \<open>Indexed access\<close>

lemma sint_small:
  fixes i :: "64 word"
  assumes "unat i < 2 ^ 63"
  shows "sint i = uint i"
proof -
  have "uint i < 2 ^ 63"
    using assms by (metis uint_nat of_nat_less_numeral_power_cancel_iff)
  moreover have "- (2 ^ 63) \<le> uint i"
    by (rule order_trans [of _ 0]) simp_all
  ultimately have "signed_take_bit 63 (uint i) = uint i"
    by (rule signed_take_bit_int_eq_self [rotated])
  then show ?thesis
    by (simp add: sint_uint)
qed

lemma Range_index_in_range:
  assumes "valid_span r" "unat i < length (elements r)"
  shows "Range_index T h r i =
    (if satisfies T h (elements r ! unat i) then Inr (elements r ! unat i)
     else Inl AssertionFailure)"
proof -
  from assms(1) obtain S j n where r:
    "m_begin r = RangeIterator \<lparr>vec = S, pos = int j\<rparr>"
    "m_end r = RangeIterator \<lparr>vec = S, pos = int (j + n)\<rparr>"
    "j + n \<le> length S" "length S < 2 ^ 63" "elements r = take n (drop j S)"
    by (rule valid_span_shape)
  have n: "unat i < n" using assms(2) r by simp
  then have "unat i < 2 ^ 63" using r(3,4) by linarith
  then have s: "sint i = uint i" by (rule sint_small)
  have u: "uint i = int (unat i)" by (rule uint_nat)
  have p: "iterator_plus (m_begin r) (sint i) = RangeIterator \<lparr>vec = S, pos = int (j + unat i)\<rparr>"
    by (simp add: iterator_plus_def base_plus_def r s)
  have "j + unat i < length S" using n r(3) by linarith
  then have "deref T h (RangeIterator \<lparr>vec = S, pos = int (j + unat i)\<rparr>) =
     (if satisfies T h (S ! (j + unat i)) then Inr (S ! (j + unat i)) else Inl AssertionFailure)"
    by (rule deref_at)
  moreover have "elements r ! unat i = S ! (j + unat i)"
    using n r by simp
  moreover have "uint i < int n"
    unfolding u using n by (rule iffD2 [OF of_nat_less_iff])
  then have "sint i < iterator_diff (m_end r) (m_begin r)"
    by (simp add: iterator_diff_def r s)
  ultimately show ?thesis
    unfolding Range_index_def p by simp
qed

lemma Range_index_beyond:
  assumes "valid_span r" "length (elements r) \<le> unat i" "unat i < 2 ^ 63"
  shows "Range_index T h r i = Inl AssertionFailure"
proof -
  from assms(1) obtain S j n where r:
    "m_begin r = RangeIterator \<lparr>vec = S, pos = int j\<rparr>"
    "m_end r = RangeIterator \<lparr>vec = S, pos = int (j + n)\<rparr>"
    "j + n \<le> length S" "length S < 2 ^ 63" "elements r = take n (drop j S)"
    by (rule valid_span_shape)
  have n: "n \<le> unat i" using assms(2) r by simp
  have s: "sint i = uint i" using assms(3) by (rule sint_small)
  have u: "uint i = int (unat i)" by (rule uint_nat)
  have "int n \<le> uint i"
    unfolding u using n by (rule iffD2 [OF of_nat_le_iff])
  then have "\<not> sint i < iterator_diff (m_end r) (m_begin r)"
    by (simp add: iterator_diff_def r s)
  then show ?thesis
    by (simp add: Range_index_def)
qed

text \<open>
  C5 at the index \<open>2 ^ 64 - 1\<close>, which is what \<^verbatim>\<open>size() - 1\<close> is for an empty range. The
  cast to \<^verbatim>\<open>difference_type\<close> makes it \<open>- 1\<close>, below every distance, so the assertion
  passes; for the range over the sub-span \<open>[1, 3)\<close> the access then returns the element
  before the range. Indices below \<open>2 ^ 63\<close> behave as the assertion intends
  (\<open>Range_index_in_range\<close>, \<open>Range_index_beyond\<close>).
\<close>

theorem Range_index_wraps:
  "Range_size (sub_span [Some 0, Some 1, Some 2] 1 3) = 2 \<and>
   Range_index ((=) ''Expression'')
     [\<lparr>kind = ''Expression'', children = [], meta = (), properties = (), pruneWalk = False\<rparr>,
      \<lparr>kind = ''Expression'', children = [], meta = (), properties = (), pruneWalk = False\<rparr>,
      \<lparr>kind = ''Expression'', children = [], meta = (), properties = (), pruneWalk = False\<rparr>]
     (sub_span [Some 0, Some 1, Some 2] 1 3) 18446744073709551615 = Inr (Some 0)"
  by (simp add: Range_size_def Range_span_def sub_span_def iterator_diff_def
      vector_begin_def base_plus_def Range_index_def iterator_plus_def deref_def
      iterator_value_def base_deref_def dynamic_pointer_cast_def)

section \<open>Properties of the documentation generator\<close>

text \<open>
  C8. The lookup maps the names of the signed and of the unsigned integers to
  \<^verbatim>\<open>integer\<close>. The table has three keys, and a name that is not one of them (and \<open>None\<close>)
  is returned unchanged.
\<close>

theorem namespace_grouping:
  "namespace (Some ''signed_integer'') = Some ''integer'' \<and>
   namespace (Some ''unsigned_integer'') = Some ''integer'' \<and>
   dom NamespaceMappings = {''signed_integer'', ''unsigned_integer'', ''struct_''} \<and>
   (\<forall>s. s \<notin> dom NamespaceMappings \<longrightarrow> namespace (Some s) = Some s) \<and>
   namespace None = None"
  by (auto simp: namespace_def NamespaceMappings_def split: option.splits if_splits)

theorem namespace_grouping_witness:
  "''bytes'' \<notin> dom NamespaceMappings \<and> namespace (Some ''bytes'') = Some ''bytes''"
proof -
  have d: "''bytes'' \<notin> dom NamespaceMappings"
    by (simp add: NamespaceMappings_def)
  with namespace_grouping have "namespace (Some ''bytes'') = Some ''bytes''"
    by blast
  with d show ?thesis by simp
qed

lemma get_list_setdefault_append:
  "get_list (setdefault_append d k v) ns = get_list d ns @ (if k = ns then [v] else [])"
  by (simp add: get_list_def setdefault_append_def)

lemma main_step_operators:
  "main_step t e = Inr t' \<Longrightarrow>
   get_list (operators t') ns = get_list (operators t) ns @ expected_contribution ns e"
  by (auto simp: main_step_def expected_contribution_def Let_def get_list_setdefault_append
      split: option.splits sum.splits if_splits)

lemma main_step_well_formed:
  "(\<exists>t'. main_step t e = Inr t') = well_formed e"
  by (auto simp: main_step_def well_formed_def Operator_init_def Method_init_def Let_def
      split: option.splits sum.splits if_splits)

lemma main_loop_operators:
  "main_loop t es = Inr t' \<Longrightarrow>
   get_list (operators t') ns =
     get_list (operators t) ns @ concat (map (expected_contribution ns) es)"
proof (induction es arbitrary: t)
  case Nil
  then show ?case by simp
next
  case (Cons e es)
  then obtain t1 where 1: "main_step t e = Inr t1" and 2: "main_loop t1 es = Inr t'"
    by (auto split: sum.splits)
  show ?case
    using main_step_operators [OF 1, of ns] Cons.IH [OF 2] by simp
qed

lemma main_loop_total:
  "list_all well_formed es \<Longrightarrow> \<exists>t'. main_loop t es = Inr t'"
proof (induction es arbitrary: t)
  case Nil
  then show ?case by simp
next
  case (Cons e es)
  then have "well_formed e" by simp
  then obtain t1 where "main_step t e = Inr t1"
    using main_step_well_formed [of t e] by blast
  moreover from Cons obtain t' where "main_loop t1 es = Inr t'"
    by auto
  ultimately show ?case by simp
qed


text \<open>
  C10. When every object of the input is well formed the loop ends normally, and the
  operators of each namespace grow by exactly what the objects are expected to add, in
  the order of the input: for an object of kind \<^verbatim>\<open>In\<close> its operator and then the same
  operator with kind \<^verbatim>\<open>InInv\<close> and the fixed text, in the same namespace; for any other
  operator kind the operator alone. The second part states this for one step of the loop.
\<close>

theorem In_generates_InInv:
  assumes "list_all well_formed ms"
  shows "(\<exists>t'. main_loop t ms = Inr t' \<and>
      (\<forall>ns. get_list (operators t') ns =
         get_list (operators t) ns @ concat (map (expected_contribution ns) ms))) \<and>
    (well_formed e \<and> Operator_init e = Inr m \<and> entry_kind e \<noteq> Some ''MemberCall'' \<longrightarrow>
      (\<exists>t1. main_step t e = Inr t1 \<and> methods t1 = methods t \<and>
         (\<forall>ns. ns \<noteq> op_namespace m \<longrightarrow> operators t1 ns = operators t ns) \<and>
         get_list (operators t1) (op_namespace m) =
           get_list (operators t) (op_namespace m) @
             (if entry_kind e = Some ''In''
              then [m, m\<lparr>op_kind := Some ''InInv'',
                         op_doc := Some ''Performs the inverse of the corresponding ``in`` operation.''\<rparr>]
              else [m])))"
proof (intro conjI impI)
  show "\<exists>t'. main_loop t ms = Inr t' \<and>
      (\<forall>ns. get_list (operators t') ns =
         get_list (operators t) ns @ concat (map (expected_contribution ns) ms))"
    using main_loop_total [OF assms, of t] main_loop_operators [of t ms] by blast
next
  assume a: "well_formed e \<and> Operator_init e = Inr m \<and> entry_kind e \<noteq> Some ''MemberCall''"
  then have k: "op_kind m = entry_kind e" "entry_kind e \<noteq> None"
    by (auto simp: Operator_init_def well_formed_def split: option.splits)
  then obtain kd where kd: "entry_kind e = Some kd" by blast
  show "\<exists>t1. main_step t e = Inr t1 \<and> methods t1 = methods t \<and>
         (\<forall>ns. ns \<noteq> op_namespace m \<longrightarrow> operators t1 ns = operators t ns) \<and>
         get_list (operators t1) (op_namespace m) =
           get_list (operators t) (op_namespace m) @
             (if entry_kind e = Some ''In''
              then [m, m\<lparr>op_kind := Some ''InInv'',
                         op_doc := Some ''Performs the inverse of the corresponding ``in`` operation.''\<rparr>]
              else [m])"
    using a k kd
    by (simp add: main_step_def Let_def get_list_def setdefault_append_def)
qed

theorem In_generates_InInv_witness:
  "list_all well_formed
     [\<lparr>entry_kind = Some ''In'', entry_doc = Some ''Tests membership.'',
       entry_namespace = Some ''bytes'', entry_operands = Some [], entry_operator = None,
       entry_rtype = Some ''bool'', entry_commutative = Some False, entry_args = None,
       entry_id = None, entry_self = None\<rparr>,
      \<lparr>entry_kind = Some ''Sum'', entry_doc = Some ''Adds.'',
       entry_namespace = Some ''bytes'', entry_operands = Some [], entry_operator = None,
       entry_rtype = Some ''bytes'', entry_commutative = Some True, entry_args = None,
       entry_id = None, entry_self = None\<rparr>] \<and>
   (\<exists>t'. main_loop initial_tables
       [\<lparr>entry_kind = Some ''In'', entry_doc = Some ''Tests membership.'',
       entry_namespace = Some ''bytes'', entry_operands = Some [], entry_operator = None,
       entry_rtype = Some ''bool'', entry_commutative = Some False, entry_args = None,
       entry_id = None, entry_self = None\<rparr>,
        \<lparr>entry_kind = Some ''Sum'', entry_doc = Some ''Adds.'',
       entry_namespace = Some ''bytes'', entry_operands = Some [], entry_operator = None,
       entry_rtype = Some ''bytes'', entry_commutative = Some True, entry_args = None,
       entry_id = None, entry_self = None\<rparr>] = Inr t' \<and>
     get_list (operators t') (Some ''bytes'') =
       [\<lparr>op_doc = Some ''Tests membership.'', op_kind = Some ''In'',
         op_namespace = Some ''bytes'', op_operands = [], op_operator = None,
         op_rtype = Some ''bool'', op_commutative = Some False\<rparr>,
        \<lparr>op_doc = Some ''Performs the inverse of the corresponding ``in`` operation.'',
         op_kind = Some ''InInv'', op_namespace = Some ''bytes'', op_operands = [],
         op_operator = None, op_rtype = Some ''bool'', op_commutative = Some False\<rparr>,
        \<lparr>op_doc = Some ''Adds.'', op_kind = Some ''Sum'',
         op_namespace = Some ''bytes'', op_operands = [], op_operator = None,
         op_rtype = Some ''bytes'', op_commutative = Some True\<rparr>]) \<and>
   Operator_init
     \<lparr>entry_kind = Some ''In'', entry_doc = Some ''Tests membership.'',
       entry_namespace = Some ''bytes'', entry_operands = Some [], entry_operator = None,
       entry_rtype = Some ''bool'', entry_commutative = Some False, entry_args = None,
       entry_id = None, entry_self = None\<rparr> =
     Inr \<lparr>op_doc = Some ''Tests membership.'', op_kind = Some ''In'',
         op_namespace = Some ''bytes'', op_operands = [], op_operator = None,
         op_rtype = Some ''bool'', op_commutative = Some False\<rparr> \<and>
   (\<exists>t1. main_step initial_tables
       \<lparr>entry_kind = Some ''In'', entry_doc = Some ''Tests membership.'',
       entry_namespace = Some ''bytes'', entry_operands = Some [], entry_operator = None,
       entry_rtype = Some ''bool'', entry_commutative = Some False, entry_args = None,
       entry_id = None, entry_self = None\<rparr> = Inr t1 \<and>
     get_list (operators t1) (Some ''bytes'') =
       [\<lparr>op_doc = Some ''Tests membership.'', op_kind = Some ''In'',
         op_namespace = Some ''bytes'', op_operands = [], op_operator = None,
         op_rtype = Some ''bool'', op_commutative = Some False\<rparr>,
        \<lparr>op_doc = Some ''Performs the inverse of the corresponding ``in`` operation.'',
         op_kind = Some ''InInv'', op_namespace = Some ''bytes'', op_operands = [],
         op_operator = None, op_rtype = Some ''bool'', op_commutative = Some False\<rparr>])"
proof -
  let ?meta = "[\<lparr>entry_kind = Some ''In'', entry_doc = Some ''Tests membership.'',
       entry_namespace = Some ''bytes'', entry_operands = Some [], entry_operator = None,
       entry_rtype = Some ''bool'', entry_commutative = Some False, entry_args = None,
       entry_id = None, entry_self = None\<rparr>,
      \<lparr>entry_kind = Some ''Sum'', entry_doc = Some ''Adds.'',
       entry_namespace = Some ''bytes'', entry_operands = Some [], entry_operator = None,
       entry_rtype = Some ''bytes'', entry_commutative = Some True, entry_args = None,
       entry_id = None, entry_self = None\<rparr>]"
  have wf: "list_all well_formed ?meta"
    by (simp add: well_formed_def)
  from In_generates_InInv [OF wf, of initial_tables]
  obtain t' where t': "main_loop initial_tables ?meta = Inr t'"
    and ops: "\<forall>ns. get_list (operators t') ns =
       get_list (operators initial_tables) ns @ concat (map (expected_contribution ns) ?meta)"
    by blast
  from ops have "get_list (operators t') (Some ''bytes'') =
       get_list (operators initial_tables) (Some ''bytes'') @
       concat (map (expected_contribution (Some ''bytes'')) ?meta)"
    by blast
  then have "get_list (operators t') (Some ''bytes'') =
       [\<lparr>op_doc = Some ''Tests membership.'', op_kind = Some ''In'',
         op_namespace = Some ''bytes'', op_operands = [], op_operator = None,
         op_rtype = Some ''bool'', op_commutative = Some False\<rparr>,
        \<lparr>op_doc = Some ''Performs the inverse of the corresponding ``in`` operation.'',
         op_kind = Some ''InInv'', op_namespace = Some ''bytes'', op_operands = [],
         op_operator = None, op_rtype = Some ''bool'', op_commutative = Some False\<rparr>,
        \<lparr>op_doc = Some ''Adds.'', op_kind = Some ''Sum'',
         op_namespace = Some ''bytes'', op_operands = [], op_operator = None,
         op_rtype = Some ''bytes'', op_commutative = Some True\<rparr>]"
    by (simp add: expected_contribution_def Operator_init_def namespace_def
        NamespaceMappings_def initial_tables_def get_list_def)
  with t' have loop: "\<exists>t'. main_loop initial_tables ?meta = Inr t' \<and>
     get_list (operators t') (Some ''bytes'') =
       [\<lparr>op_doc = Some ''Tests membership.'', op_kind = Some ''In'',
         op_namespace = Some ''bytes'', op_operands = [], op_operator = None,
         op_rtype = Some ''bool'', op_commutative = Some False\<rparr>,
        \<lparr>op_doc = Some ''Performs the inverse of the corresponding ``in`` operation.'',
         op_kind = Some ''InInv'', op_namespace = Some ''bytes'', op_operands = [],
         op_operator = None, op_rtype = Some ''bool'', op_commutative = Some False\<rparr>,
        \<lparr>op_doc = Some ''Adds.'', op_kind = Some ''Sum'',
         op_namespace = Some ''bytes'', op_operands = [], op_operator = None,
         op_rtype = Some ''bytes'', op_commutative = Some True\<rparr>]"
    by blast
  let ?e = "\<lparr>entry_kind = Some ''In'', entry_doc = Some ''Tests membership.'',
       entry_namespace = Some ''bytes'', entry_operands = Some [], entry_operator = None,
       entry_rtype = Some ''bool'', entry_commutative = Some False, entry_args = None,
       entry_id = None, entry_self = None\<rparr>"
  let ?m = "\<lparr>op_doc = Some ''Tests membership.'', op_kind = Some ''In'',
         op_namespace = Some ''bytes'', op_operands = [], op_operator = None,
         op_rtype = Some ''bool'', op_commutative = Some False\<rparr>"
  have we: "well_formed ?e" by (simp add: well_formed_def)
  have oi: "Operator_init ?e = Inr ?m"
    by (simp add: Operator_init_def namespace_def NamespaceMappings_def)
  have nk: "entry_kind ?e \<noteq> Some ''MemberCall''" by simp
  from In_generates_InInv [OF wf, of initial_tables ?e ?m] we oi nk
  obtain t1 where "main_step initial_tables ?e = Inr t1"
    and "get_list (operators t1) (op_namespace ?m) =
           get_list (operators initial_tables) (op_namespace ?m) @
             (if entry_kind ?e = Some ''In''
              then [?m, ?m\<lparr>op_kind := Some ''InInv'',
                         op_doc := Some ''Performs the inverse of the corresponding ``in`` operation.''\<rparr>]
              else [?m])"
    by blast
  then have step: "\<exists>t1. main_step initial_tables ?e = Inr t1 \<and>
     get_list (operators t1) (Some ''bytes'') =
       [\<lparr>op_doc = Some ''Tests membership.'', op_kind = Some ''In'',
         op_namespace = Some ''bytes'', op_operands = [], op_operator = None,
         op_rtype = Some ''bool'', op_commutative = Some False\<rparr>,
        \<lparr>op_doc = Some ''Performs the inverse of the corresponding ``in`` operation.'',
         op_kind = Some ''InInv'', op_namespace = Some ''bytes'', op_operands = [],
         op_operator = None, op_rtype = Some ''bool'', op_commutative = Some False\<rparr>]"
    by (simp add: initial_tables_def get_list_def)
  from wf loop oi step show ?thesis by blast
qed

section \<open>Properties of the walker\<close>

lemma walk_children_mem:
  "q \<in> set (walk_children ord k cs) \<longleftrightarrow>
   (\<exists>j r. j < length cs \<and> q = (k + j) # r \<and> r \<in> set (walk ord (cs ! j)))"
proof (induction cs arbitrary: k)
  case Nil
  show ?case by simp
next
  case (Cons c cs)
  have "(\<exists>j r. j < length (c # cs) \<and> q = (k + j) # r \<and> r \<in> set (walk ord ((c # cs) ! j))) \<longleftrightarrow>
    (\<exists>r. q = k # r \<and> r \<in> set (walk ord c)) \<or>
    (\<exists>j r. j < length cs \<and> q = (Suc k + j) # r \<and> r \<in> set (walk ord (cs ! j)))"
    by (auto simp: less_Suc_eq_0_disj)
  then show ?case
    using Cons.IH [of "Suc k"] by auto
qed

lemma walk_root: "[] \<in> set (walk ord t)"
  by (cases t; cases ord) (simp_all add: Let_def)

lemma walk_below:
  "i # q \<in> set (walk ord t) \<longleftrightarrow>
   \<not> tree_pruneWalk t \<and> i < length (tree_children t) \<and> q \<in> set (walk ord (tree_children t ! i))"
  by (cases t; cases ord) (auto simp: Let_def walk_children_mem)

lemma visited_iff:
  "p \<in> set (walk ord t) \<longleftrightarrow> node_at t p \<noteq> None \<and> \<not> pruned_above t p"
proof (induction p arbitrary: t)
  case Nil
  show ?case by (simp add: walk_root)
next
  case (Cons i q)
  show ?case
    unfolding walk_below using Cons.IH [of "tree_children t ! i"] by auto
qed

lemma pruned_above_descendant:
  "node_at t p = Some n \<Longrightarrow> tree_pruneWalk n \<Longrightarrow> q \<noteq> [] \<Longrightarrow> pruned_above t (p @ q)"
proof (induction p arbitrary: t)
  case Nil
  then show ?case by (cases q) simp_all
next
  case (Cons i p)
  then show ?case by (auto split: if_splits)
qed

text \<open>
  C7, amended. For a node of the tree with \<^verbatim>\<open>pruneWalk()\<close> true: a walk of the whole tree,
  in either order, visits no child of the node and nothing else below it; it visits
  the node itself exactly when no node above it has \<^verbatim>\<open>pruneWalk()\<close> true; a walk started at
  the node visits the node alone.
\<close>

theorem prune_respected:
  assumes "node_at t p = Some n" "tree_pruneWalk n"
  shows "(p \<in> set (walk ord t) \<longleftrightarrow> \<not> pruned_above t p) \<and>
    (\<forall>i. p @ [i] \<notin> set (walk ord t)) \<and>
    (\<forall>q. q \<noteq> [] \<longrightarrow> p @ q \<notin> set (walk ord t)) \<and>
    walk ord n = [[]]"
proof -
  have 1: "p \<in> set (walk ord t) \<longleftrightarrow> \<not> pruned_above t p"
    using assms(1) by (simp add: visited_iff)
  have 2: "\<forall>q. q \<noteq> [] \<longrightarrow> p @ q \<notin> set (walk ord t)"
    using pruned_above_descendant [OF assms] by (simp add: visited_iff)
  then have 3: "\<forall>i. p @ [i] \<notin> set (walk ord t)" by simp
  have 4: "walk ord n = [[]]"
    using assms(2) by (cases n; cases ord) simp_all
  from 1 2 3 4 show ?thesis by blast
qed

text \<open>
  C7, as stated, fails for a pruning node below another pruning node: the walker never
  reaches it, so it is not visited.
\<close>

theorem prune_counterexample:
  "node_at (Tree ''a'' True [Tree ''b'' True [Tree ''c'' False []]]) [0] =
     Some (Tree ''b'' True [Tree ''c'' False []]) \<and>
   tree_pruneWalk (Tree ''b'' True [Tree ''c'' False []]) \<and>
   walk PreOrder (Tree ''a'' True [Tree ''b'' True [Tree ''c'' False []]]) = [[]] \<and>
   [0] \<notin> set (walk PreOrder (Tree ''a'' True [Tree ''b'' True [Tree ''c'' False []]]))"
  by simp

theorem prune_respected_witness:
  "node_at (Tree ''r'' False [Tree ''x'' True [Tree ''c1'' False [], Tree ''c2'' False []],
      Tree ''y'' False []]) [0] =
     Some (Tree ''x'' True [Tree ''c1'' False [], Tree ''c2'' False []]) \<and>
   tree_pruneWalk (Tree ''x'' True [Tree ''c1'' False [], Tree ''c2'' False []]) \<and>
   \<not> pruned_above (Tree ''r'' False [Tree ''x'' True [Tree ''c1'' False [], Tree ''c2'' False []],
      Tree ''y'' False []]) [0] \<and>
   [0] \<in> set (walk PreOrder (Tree ''r'' False
      [Tree ''x'' True [Tree ''c1'' False [], Tree ''c2'' False []], Tree ''y'' False []])) \<and>
   [0, 0] \<notin> set (walk PreOrder (Tree ''r'' False
      [Tree ''x'' True [Tree ''c1'' False [], Tree ''c2'' False []], Tree ''y'' False []])) \<and>
   [0, 1] \<notin> set (walk PreOrder (Tree ''r'' False
      [Tree ''x'' True [Tree ''c1'' False [], Tree ''c2'' False []], Tree ''y'' False []])) \<and>
   walk PreOrder (Tree ''r'' False
      [Tree ''x'' True [Tree ''c1'' False [], Tree ''c2'' False []], Tree ''y'' False []]) =
     [[], [0], [1]]"
proof -
  let ?x = "Tree ''x'' True [Tree ''c1'' False [], Tree ''c2'' False []]"
  let ?t = "Tree ''r'' False [?x, Tree ''y'' False []]"
  have n: "node_at ?t [0] = Some ?x" by simp
  have p: "tree_pruneWalk ?x" by simp
  have a: "\<not> pruned_above ?t [0]" by simp
  from prune_respected [OF n p, of PreOrder] a
  have "[0] \<in> set (walk PreOrder ?t)" and c: "\<forall>i. [0] @ [i] \<notin> set (walk PreOrder ?t)"
    by blast+
  moreover from c have "[0] @ [0] \<notin> set (walk PreOrder ?t)" "[0] @ [1] \<notin> set (walk PreOrder ?t)"
    by blast+
  moreover have "walk PreOrder ?t = [[], [0], [1]]" by simp
  ultimately show ?thesis using n p a by simp
qed

end
